theory Spec2Isabelle
  imports
    Complex_Main
    "HOL-Library.AList"
    "HOL-Library.Multiset"
    "HOL-Library.Char_ord"
    "HOL-Library.List_Lexorder"
    "HOL-Library.Product_Lexorder"
begin

section \<open>Benchmark records and Python values\<close>

text \<open>
  One measurement as the scripts of \<^verbatim>\<open>assignment1/a\<close> hold it after the CSV loading
  loop: \<^verbatim>\<open>row['N']\<close> and \<^verbatim>\<open>row['threads']\<close> are Python ints, \<^verbatim>\<open>row['sec']\<close> is a
  float and \<^verbatim>\<open>row['pattern']\<close> stays the string the CSV reader produced.  The pandas
  scripts of \<^verbatim>\<open>assignment1/b\<close> read the pattern column as an integer code, so the type
  of the pattern is a parameter.

  A Python float is a finite number, an infinity or \<^verbatim>\<open>nan\<close>; \<^verbatim>\<open>float(row['sec'])\<close> and
  \<^verbatim>\<open>pd.read_csv\<close> produce all of them (\<^verbatim>\<open>float('nan')\<close>, an empty CSV cell).  A finite
  float is given by the real number it denotes; the two zeros are one value, which no
  comparison tells apart.  The scripts only compare elapsed times: \<open>float_lt\<close> is
  Python's \<^verbatim>\<open><\<close> and \<open>float_le\<close> is \<^verbatim>\<open><=\<close>, both false as soon as one side is \<^verbatim>\<open>nan\<close>.
\<close>

datatype pyfloat = Fin real | PInf | NInf | NaN

fun float_lt :: "pyfloat \<Rightarrow> pyfloat \<Rightarrow> bool" where
  "float_lt (Fin x) (Fin y) = (x < y)"
| "float_lt (Fin x) PInf = True"
| "float_lt NInf (Fin y) = True"
| "float_lt NInf PInf = True"
| "float_lt _ _ = False"

definition float_le :: "pyfloat \<Rightarrow> pyfloat \<Rightarrow> bool" where
  "float_le a b = (a \<noteq> NaN \<and> b \<noteq> NaN \<and> (a = b \<or> float_lt a b))"

text \<open>The position of a float in an ascending pandas sort: missing values last.\<close>

fun float_key :: "pyfloat \<Rightarrow> nat \<times> real" where
  "float_key NInf = (0, 0)"
| "float_key (Fin x) = (1, x)"
| "float_key PInf = (2, 0)"
| "float_key NaN = (3, 0)"

record 'p row =
  N :: int
  threads :: int
  pattern :: 'p
  sec :: pyfloat

datatype py_error = ValueError | IndexError | KeyError

text \<open>
  A Python \<^verbatim>\<open>dict\<close> is an association list in insertion order: \<^const>\<open>map_of\<close> reads a
  key, \<^const>\<open>AList.update\<close> overwrites the value of a present key in place and appends an
  absent key at the end, exactly as item assignment does.
\<close>

type_synonym ('k, 'v) dict = "('k \<times> 'v) list"

definition get_or_empty :: "('k, 'v list) dict \<Rightarrow> 'k \<Rightarrow> 'v list" where
  "get_or_empty d k = (case map_of d k of None \<Rightarrow> [] | Some v \<Rightarrow> v)"

definition dict_get :: "('k, 'v) dict \<Rightarrow> 'k \<Rightarrow> py_error + 'v" where
  "dict_get d k = (case map_of d k of None \<Rightarrow> Inl KeyError | Some v \<Rightarrow> Inr v)"

fun mapM_err :: "('a \<Rightarrow> py_error + 'b) \<Rightarrow> 'a list \<Rightarrow> py_error + 'b list" where
  "mapM_err f [] = Inr []"
| "mapM_err f (x # xs) =
     (case f x of
        Inl e \<Rightarrow> Inl e
      | Inr y \<Rightarrow> (case mapM_err f xs of Inl e \<Rightarrow> Inl e | Inr ys \<Rightarrow> Inr (y # ys)))"

text \<open>The builtin \<^verbatim>\<open>max\<close> of a list raises \<^verbatim>\<open>ValueError\<close> on the empty list.\<close>

fun py_max :: "int list \<Rightarrow> py_error + int" where
  "py_max [] = Inl ValueError"
| "py_max (x # xs) = Inr (foldl max x xs)"

section \<open>The CSV loading loop (\<^verbatim>\<open>assignment1/a\<close>, both scripts)\<close>




section \<open>\<^verbatim>\<open>assignment1/a/generate_report.py\<close>\<close>

definition all_ns :: "'p row list \<Rightarrow> int list" where
  "all_ns rs = sort (remdups (map N rs))"

definition patterns :: "string row list \<Rightarrow> string list" where
  "patterns rs = sort (remdups (map pattern rs))"

text \<open>
  The body shared by the single-thread loop (\<open>t = 1\<close>) and the inner loop of the
  multi-thread section:
  \<^verbatim>\<open>
  if row['threads'] == t:
      p = row['pattern']
      if p not in d: d[p] = {}
      d[p][row['N']] = row['sec']
  \<close>
\<close>

definition series_step ::
  "int \<Rightarrow> (string, (int, pyfloat) dict) dict \<Rightarrow> string row \<Rightarrow> (string, (int, pyfloat) dict) dict" where
  "series_step t d r =
     (if threads r = t
      then AList.update (pattern r) (AList.update (N r) (sec r) (get_or_empty d (pattern r))) d
      else d)"

definition single_thread_data :: "string row list \<Rightarrow> (string, (int, pyfloat) dict) dict" where
  "single_thread_data rs = foldl (series_step 1) [] rs"

definition thread_counts :: "'p row list \<Rightarrow> int list" where
  "thread_counts rs = sort (remdups (map threads (filter (\<lambda>d. threads d > 1) rs)))"

definition multi_thread_data ::
  "string row list \<Rightarrow> (int, (string, (int, pyfloat) dict) dict) dict" where
  "multi_thread_data rs = map (\<lambda>t. (t, foldl (series_step t) [] rs)) (thread_counts rs)"

text \<open>
  \<^verbatim>\<open>
  if row['N'] == n:
      p = row['pattern']; s = row['sec']
      if p not in best_times or s < best_times[p]:
          best_times[p] = s
  \<close>
  with \<open>n = max_n\<close> in \<^verbatim>\<open>generate_report.py\<close> and \<open>n = n_target = 2048\<close> in
  \<^verbatim>\<open>plot_results.py\<close>.
\<close>

definition best_step :: "int \<Rightarrow> (string, pyfloat) dict \<Rightarrow> string row \<Rightarrow> (string, pyfloat) dict" where
  "best_step n bt r =
     (if N r = n
      then (case map_of bt (pattern r) of
              None \<Rightarrow> AList.update (pattern r) (sec r) bt
            | Some b \<Rightarrow>
                if float_lt (sec r) b then AList.update (pattern r) (sec r) bt else bt)
      else bt)"

definition best_times :: "int \<Rightarrow> string row list \<Rightarrow> (string, pyfloat) dict" where
  "best_times n rs = foldl (best_step n) [] rs"

record dataset =
  label :: string
  data :: "pyfloat option list"
  borderColor :: string
  fill :: bool
  tension :: real

definition colors :: "string list" where
  "colors = [''rgb(255, 99, 132)'', ''rgb(54, 162, 235)'', ''rgb(255, 206, 86)'',
             ''rgb(75, 192, 192)'', ''rgb(153, 102, 255)'', ''rgb(255, 159, 64)'']"

text \<open>
  \<^verbatim>\<open>get_datasets(source_data)\<close> reads the globals \<^verbatim>\<open>patterns\<close> and \<^verbatim>\<open>all_ns\<close>; they are
  the first two arguments here.  \<^verbatim>\<open>source_data[p].get(n, None)\<close> is \<^const>\<open>map_of\<close>.
\<close>

definition get_datasets ::
  "string list \<Rightarrow> int list \<Rightarrow> (string, (int, pyfloat) dict) dict \<Rightarrow> dataset list" where
  "get_datasets pats axis source_data =
     List.map_filter
       (\<lambda>(i, p). case map_of source_data p of
                   None \<Rightarrow> None
                 | Some d \<Rightarrow>
                     Some \<lparr>label = p, data = map (\<lambda>n. map_of d n) axis,
                           borderColor = colors ! (i mod length colors),
                           fill = False, tension = 1 / 10\<rparr>)
       (enumerate 0 pats)"

record report =
  ns :: "int list"
  single_thread_datasets :: "dataset list"
  multi_thread_charts :: "(int \<times> dataset list) list"
  max_n :: int
  best_time_labels :: "string list"
  best_time_values :: "pyfloat list"

definition generate_report :: "string row list \<Rightarrow> py_error + report" where
  "generate_report rs =
     (case py_max (all_ns rs) of
        Inl e \<Rightarrow> Inl e
      | Inr m \<Rightarrow>
          (let bt = best_times m rs;
               labels = sort (map fst bt)
           in case mapM_err (dict_get bt) labels of
                Inl e \<Rightarrow> Inl e
              | Inr vals \<Rightarrow>
                  Inr \<lparr>ns = all_ns rs,
                       single_thread_datasets =
                         get_datasets (patterns rs) (all_ns rs) (single_thread_data rs),
                       multi_thread_charts =
                         map (\<lambda>t. (t, get_datasets (patterns rs) (all_ns rs)
                                         (get_or_empty (multi_thread_data rs) t)))
                             (thread_counts rs),
                       max_n = m,
                       best_time_labels = labels,
                       best_time_values = vals\<rparr>))"

section \<open>\<^verbatim>\<open>assignment1/a/plot_results.py\<close>\<close>

text \<open>
  \<^verbatim>\<open>
  if t not in data_by_thread: data_by_thread[t] = {}
  if p not in data_by_thread[t]: data_by_thread[t][p] = []
  data_by_thread[t][p].append((n, s))
  \<close>
\<close>

definition data_by_thread_step ::
  "(int, (string, (int \<times> pyfloat) list) dict) dict \<Rightarrow> string row
     \<Rightarrow> (int, (string, (int \<times> pyfloat) list) dict) dict" where
  "data_by_thread_step d r =
     (let inner = get_or_empty d (threads r)
      in AList.update (threads r)
           (AList.update (pattern r) (get_or_empty inner (pattern r) @ [(N r, sec r)]) inner) d)"

definition data_by_thread ::
  "string row list \<Rightarrow> (int, (string, (int \<times> pyfloat) list) dict) dict" where
  "data_by_thread rs = foldl data_by_thread_step [] rs"

definition sorted_patterns :: "string row list \<Rightarrow> string list" where
  "sorted_patterns rs = sort (remdups (map pattern rs))"

definition n_target :: int where
  "n_target = 2048"

text \<open>The bar chart of \<^verbatim>\<open>plot_results.py\<close>: \<^verbatim>\<open>p_names\<close> and \<^verbatim>\<open>times\<close>, drawn only when
  \<^verbatim>\<open>best_times\<close> is not empty.\<close>

definition best_time_chart :: "string row list \<Rightarrow> py_error + (string list \<times> pyfloat list) option" where
  "best_time_chart rs =
     (let bt = best_times n_target rs
      in if bt = [] then Inr None
         else (let p_names = sort (map fst bt)
               in case mapM_err (dict_get bt) p_names of
                    Inl e \<Rightarrow> Inl e
                  | Inr tms \<Rightarrow> Inr (Some (p_names, tms))))"

text \<open>Reading the groups back: every stored point with the two keys it is stored under.\<close>

definition flatten_groups ::
  "('t, ('p, ('n \<times> 's) list) dict) dict \<Rightarrow> ('t \<times> 'p \<times> 'n \<times> 's) list" where
  "flatten_groups d =
     concat (map (\<lambda>(t, inner). concat (map (\<lambda>(p, pts). map (\<lambda>(n, s). (t, p, n, s)) pts) inner)) d)"

text \<open>The same for the nested dictionaries of \<^verbatim>\<open>generate_report.py\<close>, whose innermost
  level is a dictionary from \<open>N\<close> to the elapsed time.\<close>

definition flatten_series ::
  "('t, ('p, ('n, 's) dict) dict) dict \<Rightarrow> ('t \<times> 'p \<times> 'n \<times> 's) list" where
  "flatten_series d = flatten_groups d"

section \<open>\<^verbatim>\<open>assignment1/b\<close>: the pandas scripts\<close>

text \<open>
  \<^verbatim>\<open>pd.read_csv\<close> types the \<^verbatim>\<open>pattern\<close> column as integers.  A data frame is the list of
  its rows in order, each with its index label; a label is unique in the frames built
  here (\<^verbatim>\<open>ignore_index=True\<close> renumbers the rows, boolean selection keeps labels).
  The pandas calls are modelled by their documented behaviour: \<^verbatim>\<open>Series.map(dict)\<close>
  gives a missing value for a key the dictionary lacks; \<^verbatim>\<open>groupby\<close> iterates its groups
  in ascending key order, keeps the row order inside a group and drops the rows with a
  missing key; \<^verbatim>\<open>idxmin\<close> skips the missing values (\<^verbatim>\<open>nan\<close>) and gives the label of the
  first occurrence of the minimum of the others, and on a series with nothing but
  missing values the script ends with an exception (\<^verbatim>\<open>ValueError\<close> from \<^verbatim>\<open>idxmin\<close> in
  recent versions, \<^verbatim>\<open>KeyError\<close> from the \<^verbatim>\<open>loc\<close> that follows in older ones);
  \<^verbatim>\<open>sort_values\<close> raises \<^verbatim>\<open>KeyError\<close> for a column the frame does not have, which is the
  case of \<^verbatim>\<open>pd.DataFrame([])\<close>.
\<close>

record vrow = "int row" +
  version :: string
  pattern_name :: "string option"

type_synonym frame = "(nat, vrow) dict"

definition pattern_names :: "(int, string) dict" where
  "pattern_names =
     [(0, ''row_major_rows_per_thread''), (1, ''col_major''), (2, ''blocked_32''),
      (3, ''linear_flat''), (4, ''cyclic_rows''), (5, ''unroll4'')]"

definition tag :: "string \<Rightarrow> int row \<Rightarrow> vrow" where
  "tag v r = \<lparr>N = N r, threads = threads r, pattern = pattern r, sec = sec r,
              version = v, pattern_name = map_of pattern_names (pattern r)\<rparr>"

definition Ns :: "int list" where
  "Ns = [256, 512, 1024, 2048]"

text \<open>The frame \<^verbatim>\<open>df\<close> of \<^verbatim>\<open>plot_best_time.py\<close> before the grouping: both files labelled
  with their version, concatenated and renumbered, the name column added, and the rows
  with \<open>N\<close> outside \<^const>\<open>Ns\<close> removed.\<close>

definition combined :: "int row list \<Rightarrow> int row list \<Rightarrow> frame" where
  "combined df_base df_opt =
     filter (\<lambda>(i, r). N r \<in> set Ns)
       (enumerate 0 (map (tag ''unoptimized'') df_base @ map (tag ''optimized'') df_opt))"

definition groupby :: "frame \<Rightarrow> ((int \<times> string) \<times> frame) list" where
  "groupby df =
     map (\<lambda>k. (k, filter (\<lambda>(i, r). N r = fst k \<and> pattern_name r = Some (snd k)) df))
       (sort (remdups (List.map_filter
          (\<lambda>(i, r). map_option (\<lambda>nm. (N r, nm)) (pattern_name r)) df)))"

fun idxmin_from :: "nat \<times> pyfloat \<Rightarrow> (nat \<times> pyfloat) list \<Rightarrow> nat" where
  "idxmin_from (i, x) [] = i"
| "idxmin_from (i, x) ((j, y) # ys) =
     (if float_lt y x then idxmin_from (j, y) ys else idxmin_from (i, x) ys)"

definition idxmin :: "(nat \<times> pyfloat) list \<Rightarrow> py_error + nat" where
  "idxmin ps =
     (case filter (\<lambda>(i, x). x \<noteq> NaN) ps of
        [] \<Rightarrow> Inl ValueError
      | q # qs \<Rightarrow> Inr (idxmin_from q qs))"

definition loc :: "frame \<Rightarrow> nat \<Rightarrow> py_error + vrow" where
  "loc g i = dict_get g i"

record best_entry =
  entry_N :: int
  entry_pattern_name :: string
  best_time_sec :: pyfloat
  best_version :: string

definition best_row :: "(int \<times> string) \<times> frame \<Rightarrow> py_error + best_entry" where
  "best_row kg =
     (case idxmin (map (\<lambda>(i, r). (i, sec r)) (snd kg)) of
        Inl e \<Rightarrow> Inl e
      | Inr best_idx \<Rightarrow>
          (case loc (snd kg) best_idx of
             Inl e \<Rightarrow> Inl e
           | Inr r \<Rightarrow>
               Inr \<lparr>entry_N = fst (fst kg), entry_pattern_name = snd (fst kg),
                    best_time_sec = sec r, best_version = version r\<rparr>))"

definition plot_best_time :: "int row list \<Rightarrow> int row list \<Rightarrow> py_error + best_entry list" where
  "plot_best_time df_base df_opt =
     (case mapM_err best_row (groupby (combined df_base df_opt)) of
        Inl e \<Rightarrow> Inl e
      | Inr rows \<Rightarrow>
          if rows = [] then Inl KeyError
          else Inr (sort_key (\<lambda>e. (entry_N e, float_key (best_time_sec e))) rows))"

text \<open>\<^verbatim>\<open>plot_histograms.py\<close>: one histogram per \<open>N\<close> of \<^const>\<open>Ns\<close> and per name of the
  table, skipped when either file has no value for the pair.\<close>

definition hist_vals :: "int row list \<Rightarrow> int \<Rightarrow> string \<Rightarrow> pyfloat list" where
  "hist_vals df n p =
     map sec (filter (\<lambda>r. N r = n \<and> map_of pattern_names (pattern r) = Some p) df)"

definition plot_histograms ::
  "int row list \<Rightarrow> int row list \<Rightarrow> (int \<times> string \<times> pyfloat list \<times> pyfloat list) list" where
  "plot_histograms df_base df_opt =
     concat (map (\<lambda>n. List.map_filter
                        (\<lambda>p. let base_vals = hist_vals df_base n p;
                                 opt_vals = hist_vals df_opt n p
                             in if length base_vals = 0 \<or> length opt_vals = 0 then None
                                else Some (n, p, base_vals, opt_vals))
                        (sort (map snd pattern_names)))
                 Ns)"

section \<open>\<^verbatim>\<open>assignment1/d/plot_results.py\<close>\<close>

record drow =
  Method :: string
  MatrixSize :: int
  Threads :: int
  TimeSeconds :: pyfloat
  Speedup :: pyfloat
  Efficiency :: pyfloat
  GFLOPS :: pyfloat

text \<open>\<^verbatim>\<open>Series.unique()\<close>: the distinct values in order of first appearance.\<close>

definition unique :: "'a list \<Rightarrow> 'a list" where
  "unique xs = rev (remdups (rev xs))"

text \<open>\<^verbatim>\<open>Series.max()\<close> of an integer column; on an empty series pandas gives a missing
  value, here \<^const>\<open>None\<close>.\<close>

fun series_max :: "int list \<Rightarrow> int option" where
  "series_max [] = None"
| "series_max (x # xs) = Some (foldl max x xs)"

text \<open>\<^verbatim>\<open>Series.min()\<close> of a float column skips the missing values and is missing itself
  when nothing is left.\<close>

definition float_min :: "pyfloat \<Rightarrow> pyfloat \<Rightarrow> pyfloat" where
  "float_min a b = (if float_lt b a then b else a)"

definition series_min :: "pyfloat list \<Rightarrow> pyfloat" where
  "series_min xs =
     (case filter (\<lambda>x. x \<noteq> NaN) xs of
        [] \<Rightarrow> NaN
      | y # ys \<Rightarrow> foldl float_min y ys)"

text \<open>Left panel of \<^verbatim>\<open>plot_time_comparison\<close>: per method, in the order of \<^verbatim>\<open>methods\<close>,
  the series \<^verbatim>\<open>method_data.groupby('MatrixSize')['TimeSeconds'].min()\<close>.\<close>

definition groupby_min :: "drow list \<Rightarrow> (int \<times> pyfloat) list" where
  "groupby_min md =
     map (\<lambda>s. (s, series_min (map TimeSeconds (filter (\<lambda>r. MatrixSize r = s) md))))
       (sort (remdups (map MatrixSize md)))"

definition plot_time_comparison :: "drow list \<Rightarrow> (string \<times> (int \<times> pyfloat) list) list" where
  "plot_time_comparison df =
     map (\<lambda>method. (method, groupby_min (filter (\<lambda>r. Method r = method) df)))
       (unique (map Method df))"











section \<open>Sample measurements\<close>

text \<open>Small inputs on which the general theorems below are instantiated.\<close>

definition sample_a :: "string row list" where
  "sample_a =
     [\<lparr>N = 2048, threads = 1, pattern = ''row'', sec = Fin (1 / 2)\<rparr>,
      \<lparr>N = 1024, threads = 1, pattern = ''row'', sec = Fin (1 / 8)\<rparr>,
      \<lparr>N = 2048, threads = 2, pattern = ''col'', sec = Fin (3 / 4)\<rparr>,
      \<lparr>N = 2048, threads = 2, pattern = ''row'', sec = Fin (1 / 4)\<rparr>]"

definition sample_a_report :: report where
  "sample_a_report =
     \<lparr>ns = [1024, 2048],
      single_thread_datasets =
        [\<lparr>label = ''row'', data = [Some (Fin (1 / 8)), Some (Fin (1 / 2))],
          borderColor = ''rgb(54, 162, 235)'', fill = False, tension = 1 / 10\<rparr>],
      multi_thread_charts =
        [(2, [\<lparr>label = ''col'', data = [None, Some (Fin (3 / 4))],
               borderColor = ''rgb(255, 99, 132)'', fill = False, tension = 1 / 10\<rparr>,
              \<lparr>label = ''row'', data = [None, Some (Fin (1 / 4))],
               borderColor = ''rgb(54, 162, 235)'', fill = False, tension = 1 / 10\<rparr>])],
      max_n = 2048,
      best_time_labels = [''col'', ''row''],
      best_time_values = [Fin (3 / 4), Fin (1 / 4)]\<rparr>"

text \<open>The same records at size 2048, in the same order, among other records at size 512.\<close>

definition sample_a2 :: "string row list" where
  "sample_a2 =
     [\<lparr>N = 512, threads = 1, pattern = ''col'', sec = Fin (1 / 16)\<rparr>,
      \<lparr>N = 2048, threads = 1, pattern = ''row'', sec = Fin (1 / 2)\<rparr>,
      \<lparr>N = 2048, threads = 2, pattern = ''col'', sec = Fin (3 / 4)\<rparr>,
      \<lparr>N = 512, threads = 2, pattern = ''row'', sec = Fin (1 / 32)\<rparr>,
      \<lparr>N = 2048, threads = 2, pattern = ''row'', sec = Fin (1 / 4)\<rparr>]"

definition sample_a2_report :: report where
  "sample_a2_report =
     \<lparr>ns = [512, 2048],
      single_thread_datasets =
        [\<lparr>label = ''col'', data = [Some (Fin (1 / 16)), None],
          borderColor = ''rgb(255, 99, 132)'', fill = False, tension = 1 / 10\<rparr>,
         \<lparr>label = ''row'', data = [None, Some (Fin (1 / 2))],
          borderColor = ''rgb(54, 162, 235)'', fill = False, tension = 1 / 10\<rparr>],
      multi_thread_charts =
        [(2, [\<lparr>label = ''col'', data = [None, Some (Fin (3 / 4))],
               borderColor = ''rgb(255, 99, 132)'', fill = False, tension = 1 / 10\<rparr>,
              \<lparr>label = ''row'', data = [Some (Fin (1 / 32)), Some (Fin (1 / 4))],
               borderColor = ''rgb(54, 162, 235)'', fill = False, tension = 1 / 10\<rparr>])],
      max_n = 2048,
      best_time_labels = [''col'', ''row''],
      best_time_values = [Fin (3 / 4), Fin (1 / 4)]\<rparr>"



text \<open>Two result files for the pandas scripts: a tie between the files for pattern 1,
  a pattern code outside the table, a size outside \<open>Ns\<close>, and a missing time.\<close>

definition sample_base :: "int row list" where
  "sample_base =
     [\<lparr>N = 256, threads = 1, pattern = 1, sec = Fin (1 / 2)\<rparr>,
      \<lparr>N = 256, threads = 1, pattern = 7, sec = Fin (1 / 8)\<rparr>,
      \<lparr>N = 256, threads = 1, pattern = 0, sec = Fin (1 / 8)\<rparr>,
      \<lparr>N = 100, threads = 1, pattern = 1, sec = Fin (1 / 100)\<rparr>]"

definition sample_opt :: "int row list" where
  "sample_opt =
     [\<lparr>N = 256, threads = 1, pattern = 1, sec = Fin (1 / 2)\<rparr>,
      \<lparr>N = 256, threads = 2, pattern = 0, sec = NaN\<rparr>,
      \<lparr>N = 256, threads = 1, pattern = 0, sec = Fin (1 / 16)\<rparr>]"

definition sample_best :: "best_entry list" where
  "sample_best =
     [\<lparr>entry_N = 256, entry_pattern_name = ''row_major_rows_per_thread'',
       best_time_sec = Fin (1 / 16), best_version = ''optimized''\<rparr>,
      \<lparr>entry_N = 256, entry_pattern_name = ''col_major'',
       best_time_sec = Fin (1 / 2), best_version = ''unoptimized''\<rparr>]"



section \<open>Auxiliary facts\<close>

lemma foldl_max_Max: "foldl max (x::int) xs = Max (set (x # xs))"
proof (induction xs arbitrary: x)
  case Nil
  show ?case by simp
next
  case (Cons y ys)
  have "foldl max x (y # ys) = Max (set (max x y # ys))"
    using Cons.IH [of "max x y"] by simp
  also have "\<dots> = Max (set (x # y # ys))"
    by (cases "ys = []") (simp_all add: Max_insert max.assoc)
  finally show ?case .
qed

lemma py_max_Inr: "xs \<noteq> [] \<Longrightarrow> py_max xs = Inr (Max (set xs))"
  by (cases xs) (simp_all only: py_max.simps foldl_max_Max)

lemma py_max_Inl: "py_max xs = Inl e \<Longrightarrow> xs = []"
  by (cases xs) simp_all

lemma set_all_ns: "set (all_ns rs) = N ` set rs"
  by (simp add: all_ns_def)

lemma all_ns_empty: "all_ns rs = [] \<longleftrightarrow> rs = []"
  using set_all_ns [of rs] by (metis image_is_empty set_empty)

lemma mapM_err_Inr:
  "mapM_err f xs = Inr ys \<longleftrightarrow> list_all2 (\<lambda>x y. f x = Inr y) xs ys"
proof (induction xs arbitrary: ys)
  case Nil
  show ?case by auto
next
  case (Cons x xs)
  show ?case
    by (cases ys) (auto simp: Cons.IH [symmetric] split: sum.splits)
qed

lemma mapM_err_total:
  "(\<And>x. x \<in> set xs \<Longrightarrow> \<exists>y. f x = Inr y) \<Longrightarrow> \<exists>ys. mapM_err f xs = Inr ys"
proof (induction xs)
  case Nil
  show ?case by simp
next
  case (Cons x xs)
  then obtain y ys where "f x = Inr y" "mapM_err f xs = Inr ys"
    by (metis list.set_intros(1) list.set_intros(2))
  then show ?case by simp
qed

lemma dict_get_Inr: "dict_get d k = Inr v \<longleftrightarrow> map_of d k = Some v"
  by (simp add: dict_get_def split: option.splits)

lemma dict_get_keys: "set ks \<subseteq> fst ` set d \<Longrightarrow> \<exists>vs. mapM_err (dict_get d) ks = Inr vs"
proof (rule mapM_err_total)
  fix k assume "set ks \<subseteq> fst ` set d" "k \<in> set ks"
  then have "k \<in> fst ` set d" by blast
  then obtain v where "map_of d k = Some v"
    by (metis domD dom_map_of_conv_image_fst)
  then show "\<exists>y. dict_get d k = Inr y" by (simp add: dict_get_def)
qed

lemma foldl_filter_skip:
  "(\<And>a x. \<not> P x \<Longrightarrow> f a x = a) \<Longrightarrow> foldl f a (filter P xs) = foldl f a xs"
  by (induction xs arbitrary: a) simp_all

lemma best_times_filter: "best_times n (filter (\<lambda>r. N r = n) rs) = best_times n rs"
  unfolding best_times_def by (rule foldl_filter_skip) (simp add: best_step_def)

lemma keys_best_step: "fst ` set (best_step n bt r) = (if N r = n then insert (pattern r) (fst ` set bt) else fst ` set bt)"
  by (auto simp: best_step_def dom_update [unfolded dom_map_of_conv_image_fst] split: option.splits
      dest: map_of_SomeD intro: rev_image_eqI)


lemma generate_report_Inr:
  assumes "generate_report rs = Inr rep"
  shows "rs \<noteq> []"
    and "max_n rep = Max (N ` set rs)"
    and "ns rep = all_ns rs"
    and "best_time_labels rep = sort (map fst (best_times (max_n rep) rs))"
    and "list_all2 (\<lambda>k v. map_of (best_times (max_n rep) rs) k = Some v)
           (best_time_labels rep) (best_time_values rep)"
    and "single_thread_datasets rep = get_datasets (patterns rs) (all_ns rs) (single_thread_data rs)"
    and "multi_thread_charts rep =
           map (\<lambda>t. (t, get_datasets (patterns rs) (all_ns rs) (get_or_empty (multi_thread_data rs) t)))
             (thread_counts rs)"
proof -
  from assms obtain m where m: "py_max (all_ns rs) = Inr m"
    by (auto simp: generate_report_def split: sum.splits)
  then have ne: "all_ns rs \<noteq> []" by (cases "all_ns rs") simp_all
  then show "rs \<noteq> []" by (simp add: all_ns_empty)
  from m ne have mm: "m = Max (N ` set rs)"
    using py_max_Inr [of "all_ns rs"] by (simp add: set_all_ns)
  from assms m obtain vals where
    vals: "mapM_err (dict_get (best_times m rs)) (sort (map fst (best_times m rs))) = Inr vals"
    and rep: "rep = \<lparr>ns = all_ns rs,
                       single_thread_datasets =
                         get_datasets (patterns rs) (all_ns rs) (single_thread_data rs),
                       multi_thread_charts =
                         map (\<lambda>t. (t, get_datasets (patterns rs) (all_ns rs)
                                         (get_or_empty (multi_thread_data rs) t)))
                             (thread_counts rs),
                       max_n = m,
                       best_time_labels = sort (map fst (best_times m rs)),
                       best_time_values = vals\<rparr>"
    by (auto simp: generate_report_def Let_def split: sum.splits)
  from rep mm show "max_n rep = Max (N ` set rs)" by simp
  from rep show "ns rep = all_ns rs" by simp
  from rep show "best_time_labels rep = sort (map fst (best_times (max_n rep) rs))" by simp
  from vals rep show "list_all2 (\<lambda>k v. map_of (best_times (max_n rep) rs) k = Some v)
           (best_time_labels rep) (best_time_values rep)"
    by (simp add: mapM_err_Inr dict_get_Inr)
  from rep show "single_thread_datasets rep = get_datasets (patterns rs) (all_ns rs) (single_thread_data rs)"
    by simp
  from rep show "multi_thread_charts rep =
           map (\<lambda>t. (t, get_datasets (patterns rs) (all_ns rs) (get_or_empty (multi_thread_data rs) t)))
             (thread_counts rs)" by simp
qed

lemma generate_report_total:
  assumes "rs \<noteq> []"
  shows "\<exists>rep. generate_report rs = Inr rep"
proof -
  from assms have "all_ns rs \<noteq> []" by (simp add: all_ns_empty)
  then obtain m where m: "py_max (all_ns rs) = Inr m"
    using py_max_Inr by blast
  have "set (sort (map fst (best_times m rs))) \<subseteq> fst ` set (best_times m rs)" by simp
  from dict_get_keys [OF this] obtain vals where
    "mapM_err (dict_get (best_times m rs)) (sort (map fst (best_times m rs))) = Inr vals" ..
  with m show ?thesis by (simp add: generate_report_def Let_def)
qed

lemma list_all2_lookup_unique:
  "list_all2 (\<lambda>k v. f k = Some v) ks vs \<Longrightarrow> list_all2 (\<lambda>k v. f k = Some v) ks vs' \<Longrightarrow> vs = vs'"
proof (induction ks arbitrary: vs vs')
  case Nil
  then show ?case by simp
next
  case (Cons k ks)
  then show ?case by (auto simp: list_all2_Cons1)
qed

lemma best_time_chart_filter:
  "best_time_chart (filter (\<lambda>r. N r = n_target) rs) = best_time_chart rs"
  by (simp add: best_time_chart_def best_times_filter)

lemmas generate_report_eval =
  generate_report_def all_ns_def patterns_def best_times_def best_step_def
  single_thread_data_def series_step_def get_or_empty_def multi_thread_data_def
  thread_counts_def get_datasets_def List.map_filter_def dict_get_def colors_def

lemma sample_a_eval: "generate_report sample_a = Inr sample_a_report"
  by (simp add: sample_a_def sample_a_report_def generate_report_eval)

lemma sample_a2_eval: "generate_report sample_a2 = Inr sample_a2_report"
  by (simp add: sample_a2_def sample_a2_report_def generate_report_eval)

section \<open>The best-time summary looks at one matrix size\<close>

text \<open>
  Claim C10.  The per-pattern best-time summary of the \<^verbatim>\<open>assignment1/a\<close> scripts is
  computed only over the records at a single matrix size: the maximum observed size
  in \<^verbatim>\<open>generate_report.py\<close>, the hardcoded size 2048 in \<^verbatim>\<open>plot_results.py\<close>.  Records at
  any other size never influence the labels and values of the best-time chart: the
  summary is the one computed from the records at that size alone, and two inputs
  that agree on the records at that size (and, for the report, have the same maximum
  size) give the same labels and values.
\<close>

theorem best_times_single_size:
  "(generate_report rs = Inr rep \<longrightarrow>
      max_n rep = Max (N ` set rs) \<and>
      best_time_labels rep = sort (map fst (best_times (max_n rep) (filter (\<lambda>r. N r = max_n rep) rs))) \<and>
      list_all2 (\<lambda>k v. map_of (best_times (max_n rep) (filter (\<lambda>r. N r = max_n rep) rs)) k = Some v)
        (best_time_labels rep) (best_time_values rep) \<and>
      (\<forall>rs' rep'. generate_report rs' = Inr rep' \<and> max_n rep' = max_n rep \<and>
          filter (\<lambda>r. N r = max_n rep) rs' = filter (\<lambda>r. N r = max_n rep) rs \<longrightarrow>
          best_time_labels rep' = best_time_labels rep \<and>
          best_time_values rep' = best_time_values rep)) \<and>
   n_target = 2048 \<and>
   best_time_chart rs = best_time_chart (filter (\<lambda>r. N r = 2048) rs) \<and>
   (\<forall>rs'. filter (\<lambda>r. N r = 2048) rs' = filter (\<lambda>r. N r = 2048) rs \<longrightarrow>
      best_time_chart rs' = best_time_chart rs)"
proof (intro conjI impI allI)
  assume g: "generate_report rs = Inr rep"
  let ?m = "max_n rep"
  let ?f = "filter (\<lambda>r. N r = ?m)"
  show "max_n rep = Max (N ` set rs)" by (rule generate_report_Inr(2) [OF g])
  show l: "best_time_labels rep = sort (map fst (best_times ?m (?f rs)))"
    using generate_report_Inr(4) [OF g] by (simp only: best_times_filter)
  show v: "list_all2 (\<lambda>k v. map_of (best_times ?m (?f rs)) k = Some v)
        (best_time_labels rep) (best_time_values rep)"
    using generate_report_Inr(5) [OF g] by (simp only: best_times_filter)
  fix rs' rep'
  assume a: "generate_report rs' = Inr rep' \<and> max_n rep' = ?m \<and> ?f rs' = ?f rs"
  then have g': "generate_report rs' = Inr rep'" and m': "max_n rep' = ?m" and f': "?f rs' = ?f rs"
    by simp_all
  have bt: "best_times ?m rs' = best_times ?m (?f rs)"
    using best_times_filter [of ?m rs'] f' by simp
  show l': "best_time_labels rep' = best_time_labels rep"
    using generate_report_Inr(4) [OF g'] l m' bt by simp
  have "list_all2 (\<lambda>k v. map_of (best_times ?m (?f rs)) k = Some v)
        (best_time_labels rep) (best_time_values rep')"
    using generate_report_Inr(5) [OF g'] l' m' bt by simp
  with v show "best_time_values rep' = best_time_values rep"
    by (rule list_all2_lookup_unique [rotated])
next
  show "n_target = 2048" by (simp add: n_target_def)
  show "best_time_chart rs = best_time_chart (filter (\<lambda>r. N r = 2048) rs)"
    using best_time_chart_filter [of rs] by (simp add: n_target_def)
  fix rs' :: "string row list"
  assume "filter (\<lambda>r. N r = 2048) rs' = filter (\<lambda>r. N r = 2048) rs"
  then show "best_time_chart rs' = best_time_chart rs"
    using best_time_chart_filter [of rs] best_time_chart_filter [of rs'] by (simp add: n_target_def)
qed


theorem best_times_single_size_witness:
  "generate_report sample_a = Inr sample_a_report \<and>
   generate_report sample_a2 = Inr sample_a2_report \<and>
   max_n sample_a2_report = max_n sample_a_report \<and>
   filter (\<lambda>r. N r = max_n sample_a_report) sample_a2 =
     filter (\<lambda>r. N r = max_n sample_a_report) sample_a \<and>
   best_time_labels sample_a2_report = best_time_labels sample_a_report \<and>
   best_time_values sample_a2_report = best_time_values sample_a_report \<and>
   filter (\<lambda>r. N r = 2048) sample_a2 = filter (\<lambda>r. N r = 2048) sample_a \<and>
   best_time_chart sample_a2 = best_time_chart sample_a"
proof -
  have f: "filter (\<lambda>r. N r = max_n sample_a_report) sample_a2 =
           filter (\<lambda>r. N r = max_n sample_a_report) sample_a"
    by (simp add: sample_a_def sample_a2_def sample_a_report_def)
  have f': "filter (\<lambda>r. N r = 2048) sample_a2 = filter (\<lambda>r. N r = 2048) sample_a"
    by (simp add: sample_a_def sample_a2_def)
  have m: "max_n sample_a2_report = max_n sample_a_report"
    by (simp add: sample_a_report_def sample_a2_report_def)
  note t = best_times_single_size [of sample_a sample_a_report]
  from t sample_a_eval sample_a2_eval m f
  have "best_time_labels sample_a2_report = best_time_labels sample_a_report \<and>
        best_time_values sample_a2_report = best_time_values sample_a_report"
    by blast
  moreover from t f' have "best_time_chart sample_a2 = best_time_chart sample_a"
    by blast
  ultimately show ?thesis using sample_a_eval sample_a2_eval m f f' by blast
qed

lemma float_lt_not_NaN: "float_lt a b \<Longrightarrow> a \<noteq> NaN \<and> b \<noteq> NaN"
  by (cases a; cases b) simp_all

lemma float_le_not_NaN: "float_le a b \<Longrightarrow> a \<noteq> NaN \<and> b \<noteq> NaN"
  by (simp add: float_le_def)

lemma float_le_refl: "a \<noteq> NaN \<Longrightarrow> float_le a a"
  by (simp add: float_le_def)

lemma float_lt_imp_le: "float_lt a b \<Longrightarrow> float_le a b"
  using float_lt_not_NaN [of a b] by (simp add: float_le_def)

lemma float_not_lt_imp_le: "a \<noteq> NaN \<Longrightarrow> b \<noteq> NaN \<Longrightarrow> \<not> float_lt a b \<Longrightarrow> float_le b a"
  by (cases a; cases b) (auto simp: float_le_def)

lemma float_lt_trans: "float_lt a b \<Longrightarrow> float_lt b c \<Longrightarrow> float_lt a c"
  by (cases a; cases b; cases c) simp_all

lemma float_lt_le_trans: "float_lt a b \<Longrightarrow> float_le b c \<Longrightarrow> float_lt a c"
  unfolding float_le_def using float_lt_trans by blast

lemma float_le_lt_trans: "float_le a b \<Longrightarrow> float_lt b c \<Longrightarrow> float_lt a c"
  unfolding float_le_def using float_lt_trans by blast

lemma float_le_trans: "float_le a b \<Longrightarrow> float_le b c \<Longrightarrow> float_le a c"
  unfolding float_le_def using float_lt_trans by blast







lemma idxmin_from_split:
  assumes "x \<noteq> NaN" and "\<forall>q \<in> set ys. snd q \<noteq> NaN"
  shows "\<exists>pre y post. (i, x) # ys = pre @ (idxmin_from (i, x) ys, y) # post \<and>
      (\<forall>q \<in> set pre. float_lt y (snd q)) \<and> (\<forall>q \<in> set post. float_le y (snd q))"
  using assms
proof (induction ys arbitrary: i x)
  case Nil
  have "(i, x) # [] = [] @ (idxmin_from (i, x) [], x) # []" by simp
  then show ?case by fastforce
next
  case (Cons jy ys)
  obtain j y where jy: "jy = (j, y)" by (cases jy)
  from Cons.prems jy have yn: "y \<noteq> NaN" and ysn: "\<forall>q \<in> set ys. snd q \<noteq> NaN" by simp_all
  show ?case
  proof (cases "float_lt y x")
    case True
    from Cons.IH [OF yn ysn, of j] obtain pre v post where
      s: "(j, y) # ys = pre @ (idxmin_from (j, y) ys, v) # post"
      and a: "\<forall>q \<in> set pre. float_lt v (snd q)" and b: "\<forall>q \<in> set post. float_le v (snd q)"
      by blast
    have vy: "float_le v y"
    proof (cases pre)
      case Nil
      have "(j, y) # ys = (idxmin_from (j, y) ys, v) # post"
        using s unfolding Nil by (simp only: append_Nil)
      then have "v = y" by (metis list.inject prod.inject)
      with yn show ?thesis by (simp add: float_le_refl)
    next
      case (Cons q pre')
      have "(j, y) # ys = q # (pre' @ (idxmin_from (j, y) ys, v) # post)"
        using s unfolding Cons by (simp only: append_Cons)
      then have "q = (j, y)" by (metis list.inject)
      with a Cons have "float_lt v y" by simp
      then show ?thesis by (rule float_lt_imp_le)
    qed
    from vy True have vx: "float_lt v x" by (rule float_le_lt_trans)
    have r: "idxmin_from (i, x) (jy # ys) = idxmin_from (j, y) ys"
      using True jy by simp
    have "(i, x) # jy # ys = ((i, x) # pre) @ (idxmin_from (i, x) (jy # ys), v) # post"
      unfolding r using s jy by simp
    moreover have "\<forall>q \<in> set ((i, x) # pre). float_lt v (snd q)" using a vx by simp
    ultimately show ?thesis using b by blast
  next
    case False
    with Cons.prems(1) yn have xy: "float_le x y" by (simp add: float_not_lt_imp_le)
    from Cons.IH [OF Cons.prems(1) ysn, of i] obtain pre v post where
      s: "(i, x) # ys = pre @ (idxmin_from (i, x) ys, v) # post"
      and a: "\<forall>q \<in> set pre. float_lt v (snd q)" and b: "\<forall>q \<in> set post. float_le v (snd q)"
      by blast
    have r: "idxmin_from (i, x) (jy # ys) = idxmin_from (i, x) ys"
      using False jy by simp
    show ?thesis
    proof (cases pre)
      case Nil
      have e: "(i, x) # ys = (idxmin_from (i, x) ys, v) # post"
        using s unfolding Nil by (simp only: append_Nil)
      from e have v: "v = x" by (metis list.inject prod.inject)
      from e have p: "post = ys" by (metis list.inject)
      from e have k: "idxmin_from (i, x) ys = i" by (metis list.inject prod.inject)
      have "(i, x) # jy # ys = [] @ (idxmin_from (i, x) (jy # ys), v) # (jy # post)"
        using r v p k by simp
      moreover have "\<forall>q \<in> set (jy # post). float_le v (snd q)" using b xy v jy by simp
      ultimately show ?thesis by fastforce
    next
      case (Cons q pre')
      have e: "(i, x) # ys = q # (pre' @ (idxmin_from (i, x) ys, v) # post)"
        using s unfolding Cons by (simp only: append_Cons)
      from e have q: "q = (i, x)" by (metis list.inject)
      from e have t: "ys = pre' @ (idxmin_from (i, x) ys, v) # post" by (metis list.inject)
      from a Cons q have vx: "float_lt v x" by simp
      from vx xy have vy: "float_lt v y" by (rule float_lt_le_trans)
      have "(i, x) # jy # ys = ((i, x) # jy # pre') @ (idxmin_from (i, x) (jy # ys), v) # post"
        unfolding r using t by simp
      moreover have "\<forall>q \<in> set ((i, x) # jy # pre'). float_lt v (snd q)"
        using a Cons vx vy jy by auto
      ultimately show ?thesis using b by blast
    qed
  qed
qed

lemma map_of_first:
  "k \<notin> fst ` set pre \<Longrightarrow> map_of (pre @ (k, v) # post) k = Some v"
  by (induction pre) auto

lemma filter_split:
  "filter P xs = pre @ c # post \<Longrightarrow>
     \<exists>us vs. xs = us @ c # vs \<and> filter P us = pre \<and> filter P vs = post \<and> P c"
proof (induction xs arbitrary: pre)
  case Nil
  then show ?case by simp
next
  case (Cons a xs)
  show ?case
  proof (cases "P a")
    case False
    with Cons.prems have "filter P xs = pre @ c # post" by simp
    from Cons.IH [OF this] obtain us vs where
      "xs = us @ c # vs" "filter P us = pre" "filter P vs = post" "P c" by blast
    with False have "a # xs = (a # us) @ c # vs \<and> filter P (a # us) = pre \<and>
        filter P vs = post \<and> P c" by simp
    then show ?thesis by blast
  next
    case True
    with Cons.prems have e: "a # filter P xs = pre @ c # post" by simp
    show ?thesis
    proof (cases pre)
      case Nil
      with e have "a = c" "filter P xs = post" by simp_all
      with True Nil have "a # xs = [] @ c # xs \<and> filter P [] = pre \<and>
        filter P xs = post \<and> P c" by simp
      then show ?thesis by blast
    next
      case (Cons b pre')
      with e have ab: "a = b" and "filter P xs = pre' @ c # post" by simp_all
      from Cons.IH [OF this(2)] obtain us vs where
        "xs = us @ c # vs" "filter P us = pre'" "filter P vs = post" "P c" by blast
      with True ab Cons have "a # xs = (a # us) @ c # vs \<and> filter P (a # us) = pre \<and>
        filter P vs = post \<and> P c" by simp
      then show ?thesis by blast
    qed
  qed
qed

text \<open>The row a group's best entry is read from: the first row of the group, among
  those whose time is not missing, with the least elapsed time.\<close>

lemma best_row_split:
  assumes b: "best_row (k, g) = Inr e" and d: "distinct (map fst g)"
  shows "\<exists>pre i r post. g = pre @ (i, r) # post \<and> sec r \<noteq> NaN \<and>
           (\<forall>q \<in> set pre. sec (snd q) = NaN \<or> float_lt (sec r) (sec (snd q))) \<and>
           (\<forall>q \<in> set post. sec (snd q) = NaN \<or> float_le (sec r) (sec (snd q))) \<and>
           e = \<lparr>entry_N = fst k, entry_pattern_name = snd k,
                 best_time_sec = sec r, best_version = version r\<rparr>"
proof -
  let ?h = "\<lambda>(i, r). (i, sec r)"
  let ?P = "\<lambda>(i, x). x \<noteq> NaN"
  let ?Q = "\<lambda>q. sec (snd q) \<noteq> NaN"
  have fm: "filter ?P (map ?h g) = map ?h (filter ?Q g)"
    by (induction g) (auto simp: case_prod_beta)
  from b obtain c cs where f: "filter ?P (map ?h g) = c # cs"
    by (cases "filter ?P (map ?h g)") (simp_all add: best_row_def idxmin_def)
  obtain i0 x0 where c: "c = (i0, x0)" by (cases c)
  have "c \<in> set (filter ?P (map ?h g))" "\<forall>q \<in> set cs. q \<in> set (filter ?P (map ?h g))"
    unfolding f by simp_all
  then have x0: "x0 \<noteq> NaN" and csn: "\<forall>q \<in> set cs. snd q \<noteq> NaN"
    using c by (auto simp: case_prod_beta)
  let ?j = "idxmin_from (i0, x0) cs"
  have ix: "idxmin (map ?h g) = Inr ?j"
    by (simp add: idxmin_def f c)
  from idxmin_from_split [OF x0 csn, of i0] obtain pre y post where
    s: "(i0, x0) # cs = pre @ (?j, y) # post"
    and A: "\<forall>q \<in> set pre. float_lt y (snd q)" and B: "\<forall>q \<in> set post. float_le y (snd q)"
    by blast
  from s f c fm have "map ?h (filter ?Q g) = pre @ (?j, y) # post" by simp
  then obtain fpre fc fpost where
    fs: "filter ?Q g = fpre @ fc # fpost" and p1: "map ?h fpre = pre" and p2: "?h fc = (?j, y)"
    and p3: "map ?h fpost = post"
    by (auto simp: map_eq_append_conv map_eq_Cons_conv)
  obtain i r where fc: "fc = (i, r)" by (cases fc)
  with p2 have ij: "i = ?j" and y: "y = sec r" by simp_all
  have A': "\<forall>q \<in> set fpre. float_lt (sec r) (sec (snd q))"
  proof
    fix q assume "q \<in> set fpre"
    then have "?h q \<in> set pre" using p1 by auto
    with A have "float_lt y (snd (?h q))" by blast
    then show "float_lt (sec r) (sec (snd q))" using y by (cases q) simp
  qed
  have B': "\<forall>q \<in> set fpost. float_le (sec r) (sec (snd q))"
  proof
    fix q assume "q \<in> set fpost"
    then have "?h q \<in> set post" using p3 by auto
    with B have "float_le y (snd (?h q))" by blast
    then show "float_le (sec r) (sec (snd q))" using y by (cases q) simp
  qed
  from filter_split [OF fs [unfolded fc]] obtain us vs where
    gs: "g = us @ (i, r) # vs" and u: "filter ?Q us = fpre" and v: "filter ?Q vs = fpost"
    and rq: "?Q (i, r)" by blast
  have A'': "\<forall>q \<in> set us. sec (snd q) = NaN \<or> float_lt (sec r) (sec (snd q))"
  proof
    fix q assume q: "q \<in> set us"
    show "sec (snd q) = NaN \<or> float_lt (sec r) (sec (snd q))"
    proof (cases "?Q q")
      case True
      with q have "q \<in> set (filter ?Q us)" by simp
      with u A' show ?thesis by simp
    next
      case False
      then show ?thesis by simp
    qed
  qed
  have B'': "\<forall>q \<in> set vs. sec (snd q) = NaN \<or> float_le (sec r) (sec (snd q))"
  proof
    fix q assume q: "q \<in> set vs"
    show "sec (snd q) = NaN \<or> float_le (sec r) (sec (snd q))"
    proof (cases "?Q q")
      case True
      with q have "q \<in> set (filter ?Q vs)" by simp
      with v B' show ?thesis by simp
    next
      case False
      then show ?thesis by simp
    qed
  qed
  from d gs have "i \<notin> fst ` set us" by auto
  then have "map_of g i = Some r" unfolding gs by (rule map_of_first)
  then have "loc g i = Inr r" by (simp add: loc_def dict_get_def)
  with ix ij b have "e = \<lparr>entry_N = fst k, entry_pattern_name = snd k,
                 best_time_sec = sec r, best_version = version r\<rparr>"
    by (simp add: best_row_def)
  with gs rq A'' B'' show ?thesis by auto
qed

lemma distinct_combined: "distinct (map fst (combined df_base df_opt))"
  unfolding combined_def by (rule distinct_map_filter) simp

lemma groupby_key:
  "(k, g) \<in> set (groupby df) \<Longrightarrow>
     g = filter (\<lambda>(i, r). N r = fst k \<and> pattern_name r = Some (snd k)) df \<and> g \<noteq> []"
proof -
  assume "(k, g) \<in> set (groupby df)"
  then have g: "g = filter (\<lambda>(i, r). N r = fst k \<and> pattern_name r = Some (snd k)) df"
    and k: "k \<in> set (List.map_filter
          (\<lambda>(i, r). map_option (\<lambda>nm. (N r, nm)) (pattern_name r)) df)"
    by (auto simp: groupby_def)
  from k obtain i r where "(i, r) \<in> set df" "N r = fst k" "pattern_name r = Some (snd k)"
    by (auto simp: List.map_filter_def)
  then have "(i, r) \<in> set g" using g by simp
  then have "g \<noteq> []" by auto
  with g show ?thesis by blast
qed

lemma groupby_keys:
  "fst ` set (groupby df) = {(N r, nm) | i r nm. (i, r) \<in> set df \<and> pattern_name r = Some nm}"
proof -
  have "fst ` set (groupby df) = set (List.map_filter
          (\<lambda>(i, r). map_option (\<lambda>nm. (N r, nm)) (pattern_name r)) df)"
    by (simp add: groupby_def image_image)
  also have "\<dots> = {(N r, nm) | i r nm. (i, r) \<in> set df \<and> pattern_name r = Some nm}"
  proof (induction df)
    case Nil
    show ?case by (simp add: List.map_filter_simps)
  next
    case (Cons a df)
    obtain i r where a: "a = (i, r)" by (cases a)
    show ?case
      by (cases "pattern_name r") (auto simp: List.map_filter_simps a Cons.IH)
  qed
  finally show ?thesis .
qed


lemma list_all2_set2:
  "list_all2 P xs ys \<Longrightarrow> y \<in> set ys \<Longrightarrow> \<exists>x \<in> set xs. P x y"
  by (induction rule: list_all2_induct) auto

lemma plot_best_time_Inr:
  assumes "plot_best_time df_base df_opt = Inr es"
  shows "\<exists>rows. mapM_err best_row (groupby (combined df_base df_opt)) = Inr rows \<and>
           rows \<noteq> [] \<and> es = sort_key (\<lambda>e. (entry_N e, float_key (best_time_sec e))) rows"
  using assms by (auto simp: plot_best_time_def split: sum.splits if_splits)


lemma plot_best_time_entry:
  assumes "plot_best_time df_base df_opt = Inr es" and "e \<in> set es"
  shows "\<exists>pre i r post.
           filter (\<lambda>(i, r). N r = entry_N e \<and> pattern_name r = Some (entry_pattern_name e))
             (combined df_base df_opt) = pre @ (i, r) # post \<and>
           sec r \<noteq> NaN \<and>
           (\<forall>q \<in> set pre. sec (snd q) = NaN \<or> float_lt (sec r) (sec (snd q))) \<and>
           (\<forall>q \<in> set post. sec (snd q) = NaN \<or> float_le (sec r) (sec (snd q))) \<and>
           best_time_sec e = sec r \<and> best_version e = version r"
proof -
  let ?df = "combined df_base df_opt"
  from plot_best_time_Inr [OF assms(1)] obtain rows where
    m: "mapM_err best_row (groupby ?df) = Inr rows"
    and es: "es = sort_key (\<lambda>e. (entry_N e, float_key (best_time_sec e))) rows" by blast
  from assms(2) es have er: "e \<in> set rows" by simp
  from m have la: "list_all2 (\<lambda>x y. best_row x = Inr y) (groupby ?df) rows"
    by (simp add: mapM_err_Inr)
  from list_all2_set2 [OF la er] obtain kg where
    kg: "kg \<in> set (groupby ?df)" and b: "best_row kg = Inr e" by blast
  obtain k g where kgeq: "kg = (k, g)" by (cases kg)
  from kg kgeq have "(k, g) \<in> set (groupby ?df)" by simp
  from groupby_key [OF this] have
    g: "g = filter (\<lambda>(i, r). N r = fst k \<and> pattern_name r = Some (snd k)) ?df"
    by blast
  have d: "distinct (map fst g)"
    unfolding g by (rule distinct_map_filter) (rule distinct_combined)
  from best_row_split [OF b [unfolded kgeq] d] obtain pre i r post where
    s: "g = pre @ (i, r) # post" and rn: "sec r \<noteq> NaN"
    and A: "\<forall>q \<in> set pre. sec (snd q) = NaN \<or> float_lt (sec r) (sec (snd q))"
    and B: "\<forall>q \<in> set post. sec (snd q) = NaN \<or> float_le (sec r) (sec (snd q))"
    and e: "e = \<lparr>entry_N = fst k, entry_pattern_name = snd k,
                 best_time_sec = sec r, best_version = version r\<rparr>"
    by blast
  from e have f: "entry_N e = fst k" "entry_pattern_name e = snd k"
    and v: "best_time_sec e = sec r" "best_version e = version r" by simp_all
  have "filter (\<lambda>(i, r). N r = entry_N e \<and> pattern_name r = Some (entry_pattern_name e)) ?df =
          pre @ (i, r) # post"
    unfolding f using s g by simp
  with rn A B v show ?thesis by blast
qed


lemmas plot_best_time_eval =
  plot_best_time_def combined_def groupby_def tag_def Ns_def pattern_names_def
  List.map_filter_def best_row_def idxmin_def loc_def dict_get_def


lemma sample_best_eval: "plot_best_time sample_base sample_opt = Inr sample_best"
  by (simp add: sample_base_def sample_opt_def sample_best_def plot_best_time_eval)


section \<open>Best-time extraction\<close>





section \<open>Ties\<close>














section \<open>What the loader accepts\<close>




lemma get_datasets_elem:
  assumes "d \<in> set (get_datasets pats axis src)"
  shows "\<exists>inner. map_of src (label d) = Some inner \<and> data d = map (map_of inner) axis"
proof -
  from assms obtain i p where "(i, p) \<in> set (enumerate 0 pats)"
    and s: "(case map_of src p of
              None \<Rightarrow> None
            | Some inner \<Rightarrow>
                Some \<lparr>label = p, data = map (\<lambda>n. map_of inner n) axis,
                      borderColor = colors ! (i mod length colors),
                      fill = False, tension = 1 / 10\<rparr>) = Some d"
    by (auto simp: get_datasets_def List.map_filter_def)
  then show ?thesis by (cases "map_of src p") auto
qed

lemma map_of_series_step:
  "map_of (series_step t d r) p =
     (if threads r = t \<and> pattern r = p
      then Some (AList.update (N r) (sec r) (get_or_empty d p))
      else map_of d p)"
  by (simp add: series_step_def update_conv')

text \<open>What a series dictionary holds for a pattern: the elapsed time of the last record
  with the thread count, the pattern and the size.\<close>

lemma series_lookup:
  "(map_of (foldl (series_step t) [] rs) p = None \<longleftrightarrow>
      filter (\<lambda>r. threads r = t \<and> pattern r = p) rs = []) \<and>
   (\<forall>inner. map_of (foldl (series_step t) [] rs) p = Some inner \<longrightarrow>
      map_of inner =
        map_of (rev (map (\<lambda>r. (N r, sec r)) (filter (\<lambda>r. threads r = t \<and> pattern r = p) rs))))"
proof (induction rs rule: rev_induct)
  case Nil
  show ?case by simp
next
  case (snoc r rs)
  let ?S = "foldl (series_step t) [] rs"
  let ?G = "filter (\<lambda>r. threads r = t \<and> pattern r = p) rs"
  have step: "map_of (foldl (series_step t) [] (rs @ [r])) p =
      (if threads r = t \<and> pattern r = p
       then Some (AList.update (N r) (sec r) (get_or_empty ?S p))
       else map_of ?S p)"
    by (simp add: map_of_series_step)
  show ?case
  proof (cases "threads r = t \<and> pattern r = p")
    case False
    then have f: "filter (\<lambda>r. threads r = t \<and> pattern r = p) (rs @ [r]) = ?G" by auto
    from False step have m: "map_of (foldl (series_step t) [] (rs @ [r])) p = map_of ?S p"
      by auto
    show ?thesis unfolding f m by (rule snoc.IH)
  next
    case True
    have "map_of (get_or_empty ?S p) = map_of (rev (map (\<lambda>r. (N r, sec r)) ?G))"
    proof (cases "map_of ?S p")
      case None
      with snoc.IH have "?G = []" by simp
      with None show ?thesis by (simp add: get_or_empty_def)
    next
      case (Some inner)
      with snoc.IH show ?thesis by (simp add: get_or_empty_def)
    qed
    then have u: "map_of (AList.update (N r) (sec r) (get_or_empty ?S p)) =
        map_of (rev (map (\<lambda>r. (N r, sec r)) (?G @ [r])))"
      by (simp add: update_conv' fun_eq_iff)
    from True have f: "filter (\<lambda>r. threads r = t \<and> pattern r = p) (rs @ [r]) = ?G @ [r]"
      by simp
    from True step have m: "map_of (foldl (series_step t) [] (rs @ [r])) p =
        Some (AList.update (N r) (sec r) (get_or_empty ?S p))"
      by simp
    show ?thesis unfolding f m
    proof (intro conjI allI impI)
      show "(Some (AList.update (N r) (sec r) (get_or_empty ?S p)) = None) = (?G @ [r] = [])"
        by simp
      fix inner assume "Some (AList.update (N r) (sec r) (get_or_empty ?S p)) = Some inner"
      then have "inner = AList.update (N r) (sec r) (get_or_empty ?S p)" by simp
      with u show "map_of inner = map_of (rev (map (\<lambda>r. (N r, sec r)) (?G @ [r])))"
        by (simp only:)
    qed
  qed
qed

lemma map_of_rev_None:
  "map_of (rev (map (\<lambda>r. (f r, g r)) xs)) k = None \<longleftrightarrow> (\<forall>x \<in> set xs. f x \<noteq> k)"
  by (auto simp: map_of_eq_None_iff image_iff)

lemma map_of_rev_Some:
  "map_of (rev (map (\<lambda>r. (f r, g r)) xs)) k = Some v \<Longrightarrow> \<exists>x \<in> set xs. f x = k \<and> g x = v"
  by (auto dest!: map_of_SomeD)

lemma map_of_tabulate:
  "map_of (map (\<lambda>k. (k, f k)) ks) k = (if k \<in> set ks then Some (f k) else None)"
  by (induction ks) auto

lemma get_or_empty_multi:
  "t \<in> set (thread_counts rs) \<Longrightarrow>
     get_or_empty (multi_thread_data rs) t = foldl (series_step t) [] rs"
  by (simp add: get_or_empty_def multi_thread_data_def map_of_tabulate)

lemma series_dataset:
  assumes "d \<in> set (get_datasets pats axis (foldl (series_step t) [] rs))"
  shows "length (data d) = length axis \<and>
         (\<forall>i < length axis.
            data d ! i =
              map_of (rev (map (\<lambda>r. (N r, sec r))
                             (filter (\<lambda>r. threads r = t \<and> pattern r = label d) rs)))
                (axis ! i))"
proof -
  from get_datasets_elem [OF assms] obtain inner where
    m: "map_of (foldl (series_step t) [] rs) (label d) = Some inner"
    and dd: "data d = map (map_of inner) axis" by blast
  from series_lookup [of t rs "label d"] m have
    "map_of inner = map_of (rev (map (\<lambda>r. (N r, sec r))
                             (filter (\<lambda>r. threads r = t \<and> pattern r = label d) rs)))"
    by blast
  with dd show ?thesis by simp
qed

lemma series_dataset_cells:
  assumes "d \<in> set (get_datasets pats axis (foldl (series_step t) [] rs))"
  shows "length (data d) = length axis \<and>
         (\<forall>i < length axis.
            (data d ! i = None \<longleftrightarrow>
               (\<forall>r \<in> set rs. \<not> (threads r = t \<and> pattern r = label d \<and> N r = axis ! i))) \<and>
            (\<forall>v. data d ! i = Some v \<longrightarrow>
               (\<exists>r \<in> set rs. threads r = t \<and> pattern r = label d \<and> N r = axis ! i \<and>
                               sec r = v)))"
proof (intro conjI allI impI)
  note sd = series_dataset [OF assms]
  from sd show "length (data d) = length axis" by blast
  fix i assume i: "i < length axis"
  let ?G = "filter (\<lambda>r. threads r = t \<and> pattern r = label d) rs"
  from sd i have e: "data d ! i = map_of (rev (map (\<lambda>r. (N r, sec r)) ?G)) (axis ! i)"
    by blast
  show "data d ! i = None \<longleftrightarrow>
      (\<forall>r \<in> set rs. \<not> (threads r = t \<and> pattern r = label d \<and> N r = axis ! i))"
    unfolding e map_of_rev_None by auto
  fix v assume "data d ! i = Some v"
  then have "map_of (rev (map (\<lambda>r. (N r, sec r)) ?G)) (axis ! i) = Some v"
    by (simp only: e)
  from map_of_rev_Some [OF this]
  show "\<exists>r \<in> set rs. threads r = t \<and> pattern r = label d \<and> N r = axis ! i \<and> sec r = v"
    by auto
qed

section \<open>Series of equal length over the shared axis\<close>

text \<open>
  Claim C4.  For every record set, every series emitted by the series-building step
  \<^verbatim>\<open>get_datasets\<close> has the same length, the size of the shared sorted axis \<^verbatim>\<open>all_ns\<close>; the
  entry at an index belongs to the axis value at that index in every series; and an
  axis value with no matching record for a series is the absent marker \<^verbatim>\<open>None\<close>,
  never dropped and never a number: an entry that is a number is the elapsed time of
  a record with that thread count, pattern and size.
\<close>

theorem series_aligned_to_axis:
  "(\<forall>d \<in> set (get_datasets pats axis src).
      length (data d) = length axis \<and>
      (\<exists>inner. map_of src (label d) = Some inner \<and>
         (\<forall>i < length axis. data d ! i = map_of inner (axis ! i)))) \<and>
   (generate_report rs = Inr rep \<longrightarrow>
      sorted (ns rep) \<and> distinct (ns rep) \<and> set (ns rep) = N ` set rs \<and>
      (\<forall>d \<in> set (single_thread_datasets rep).
         length (data d) = length (ns rep) \<and>
         (\<forall>i < length (ns rep).
            (data d ! i = None \<longleftrightarrow>
               (\<forall>r \<in> set rs. \<not> (threads r = 1 \<and> pattern r = label d \<and> N r = ns rep ! i))) \<and>
            (\<forall>v. data d ! i = Some v \<longrightarrow>
               (\<exists>r \<in> set rs. threads r = 1 \<and> pattern r = label d \<and> N r = ns rep ! i \<and>
                               sec r = v)))) \<and>
      (\<forall>c \<in> set (multi_thread_charts rep). \<forall>d \<in> set (snd c).
         length (data d) = length (ns rep) \<and>
         (\<forall>i < length (ns rep).
            (data d ! i = None \<longleftrightarrow>
               (\<forall>r \<in> set rs. \<not> (threads r = fst c \<and> pattern r = label d \<and>
                                   N r = ns rep ! i))) \<and>
            (\<forall>v. data d ! i = Some v \<longrightarrow>
               (\<exists>r \<in> set rs. threads r = fst c \<and> pattern r = label d \<and>
                               N r = ns rep ! i \<and> sec r = v)))))"
proof -
  have 1: "\<forall>d \<in> set (get_datasets pats axis src).
      length (data d) = length axis \<and>
      (\<exists>inner. map_of src (label d) = Some inner \<and>
         (\<forall>i < length axis. data d ! i = map_of inner (axis ! i)))"
  proof
    fix d assume "d \<in> set (get_datasets pats axis src)"
    from get_datasets_elem [OF this] obtain inner where
      "map_of src (label d) = Some inner" "data d = map (map_of inner) axis" by blast
    then show "length (data d) = length axis \<and>
      (\<exists>inner. map_of src (label d) = Some inner \<and>
         (\<forall>i < length axis. data d ! i = map_of inner (axis ! i)))"
      by simp
  qed
  have 2: "sorted (ns rep) \<and> distinct (ns rep) \<and> set (ns rep) = N ` set rs \<and>
      (\<forall>d \<in> set (single_thread_datasets rep).
         length (data d) = length (ns rep) \<and>
         (\<forall>i < length (ns rep).
            (data d ! i = None \<longleftrightarrow>
               (\<forall>r \<in> set rs. \<not> (threads r = 1 \<and> pattern r = label d \<and> N r = ns rep ! i))) \<and>
            (\<forall>v. data d ! i = Some v \<longrightarrow>
               (\<exists>r \<in> set rs. threads r = 1 \<and> pattern r = label d \<and> N r = ns rep ! i \<and>
                               sec r = v)))) \<and>
      (\<forall>c \<in> set (multi_thread_charts rep). \<forall>d \<in> set (snd c).
         length (data d) = length (ns rep) \<and>
         (\<forall>i < length (ns rep).
            (data d ! i = None \<longleftrightarrow>
               (\<forall>r \<in> set rs. \<not> (threads r = fst c \<and> pattern r = label d \<and>
                                   N r = ns rep ! i))) \<and>
            (\<forall>v. data d ! i = Some v \<longrightarrow>
               (\<exists>r \<in> set rs. threads r = fst c \<and> pattern r = label d \<and>
                               N r = ns rep ! i \<and> sec r = v))))"
    if g: "generate_report rs = Inr rep"
  proof -
    note n = generate_report_Inr(3) [OF g]
    have a1: "sorted (ns rep)" and a2: "distinct (ns rep)" and a3: "set (ns rep) = N ` set rs"
      unfolding n by (simp_all add: all_ns_def)
    have b: "\<forall>d \<in> set (single_thread_datasets rep).
         length (data d) = length (ns rep) \<and>
         (\<forall>i < length (ns rep).
            (data d ! i = None \<longleftrightarrow>
               (\<forall>r \<in> set rs. \<not> (threads r = 1 \<and> pattern r = label d \<and> N r = ns rep ! i))) \<and>
            (\<forall>v. data d ! i = Some v \<longrightarrow>
               (\<exists>r \<in> set rs. threads r = 1 \<and> pattern r = label d \<and> N r = ns rep ! i \<and>
                               sec r = v)))"
    proof
    fix d assume "d \<in> set (single_thread_datasets rep)"
    then have "d \<in> set (get_datasets (patterns rs) (ns rep) (foldl (series_step 1) [] rs))"
      unfolding generate_report_Inr(6) [OF g] n single_thread_data_def .
    from series_dataset_cells [OF this]
    show "length (data d) = length (ns rep) \<and>
         (\<forall>i < length (ns rep).
            (data d ! i = None \<longleftrightarrow>
               (\<forall>r \<in> set rs. \<not> (threads r = 1 \<and> pattern r = label d \<and> N r = ns rep ! i))) \<and>
            (\<forall>v. data d ! i = Some v \<longrightarrow>
               (\<exists>r \<in> set rs. threads r = 1 \<and> pattern r = label d \<and> N r = ns rep ! i \<and>
                               sec r = v)))" .
    qed
    have c: "\<forall>c \<in> set (multi_thread_charts rep). \<forall>d \<in> set (snd c).
         length (data d) = length (ns rep) \<and>
         (\<forall>i < length (ns rep).
            (data d ! i = None \<longleftrightarrow>
               (\<forall>r \<in> set rs. \<not> (threads r = fst c \<and> pattern r = label d \<and>
                                   N r = ns rep ! i))) \<and>
            (\<forall>v. data d ! i = Some v \<longrightarrow>
               (\<exists>r \<in> set rs. threads r = fst c \<and> pattern r = label d \<and>
                               N r = ns rep ! i \<and> sec r = v)))"
    proof (intro ballI)
    fix c d assume c: "c \<in> set (multi_thread_charts rep)" and d: "d \<in> set (snd c)"
    from c obtain t where t: "t \<in> set (thread_counts rs)"
      and ceq: "c = (t, get_datasets (patterns rs) (all_ns rs)
                          (get_or_empty (multi_thread_data rs) t))"
      unfolding generate_report_Inr(7) [OF g] by auto
    from d ceq t have
      "d \<in> set (get_datasets (patterns rs) (ns rep) (foldl (series_step (fst c)) [] rs))"
      by (simp add: get_or_empty_multi n)
    from series_dataset_cells [OF this]
    show "length (data d) = length (ns rep) \<and>
         (\<forall>i < length (ns rep).
            (data d ! i = None \<longleftrightarrow>
               (\<forall>r \<in> set rs. \<not> (threads r = fst c \<and> pattern r = label d \<and>
                                   N r = ns rep ! i))) \<and>
            (\<forall>v. data d ! i = Some v \<longrightarrow>
               (\<exists>r \<in> set rs. threads r = fst c \<and> pattern r = label d \<and>
                               N r = ns rep ! i \<and> sec r = v)))" .
    qed
    show ?thesis by (intro conjI) (rule a1 a2 a3 b c)+
  qed
  show ?thesis by (rule conjI [OF 1 impI [OF 2]])
qed

theorem series_aligned_to_axis_witness:
  "generate_report sample_a = Inr sample_a_report \<and>
   \<lparr>label = ''col'', data = [None, Some (Fin (3 / 4))],
     borderColor = ''rgb(255, 99, 132)'', fill = False, tension = 1 / 10\<rparr>
     \<in> set (snd (hd (multi_thread_charts sample_a_report))) \<and>
   length (data \<lparr>label = ''col'', data = [None, Some (Fin (3 / 4))],
                 borderColor = ''rgb(255, 99, 132)'', fill = False, tension = 1 / 10\<rparr>) =
     length (ns sample_a_report)"
proof -
  let ?d = "\<lparr>label = ''col'', data = [None, Some (Fin (3 / 4))],
             borderColor = ''rgb(255, 99, 132)'', fill = False, tension = 1 / 10\<rparr>"
  have c: "hd (multi_thread_charts sample_a_report) \<in> set (multi_thread_charts sample_a_report)"
    by (simp add: sample_a_report_def)
  have d: "?d \<in> set (snd (hd (multi_thread_charts sample_a_report)))"
    by (simp add: sample_a_report_def)
  note series_aligned_to_axis [of "[]" "[]" "[]" sample_a sample_a_report,
    THEN conjunct2, THEN mp, OF sample_a_eval,
    THEN conjunct2, THEN conjunct2, THEN conjunct2, THEN conjunct2,
    THEN bspec, OF c, THEN bspec, OF d, THEN conjunct1]
  with sample_a_eval d show ?thesis by (intro conjI)
qed

lemma pattern_names_None: "c \<notin> {0..5} \<Longrightarrow> map_of pattern_names c = None"
  by (auto simp: pattern_names_def)

lemma pattern_names_Some: "map_of pattern_names c = Some nm \<Longrightarrow> c \<in> {0..5}"
  by (auto simp: pattern_names_def split: if_splits)

lemma combined_row:
  assumes "q \<in> set (combined df_base df_opt)"
  shows "pattern_name (snd q) = map_of pattern_names (pattern (snd q)) \<and>
         (\<exists>r \<in> set df_base \<union> set df_opt. pattern (snd q) = pattern r)"
proof -
  let ?L = "map (tag ''unoptimized'') df_base @ map (tag ''optimized'') df_opt"
  from assms have "q \<in> {x \<in> set (enumerate 0 ?L). case x of (i, r) \<Rightarrow> N r \<in> set Ns}"
    unfolding combined_def by (simp only: set_filter)
  then have "q \<in> set (enumerate 0 ?L)" by blast
  then have "fst q < length ?L" and "?L ! fst q = snd q"
    by (simp_all add: in_set_enumerate_eq)
  then have "snd q \<in> set ?L" by (metis nth_mem)
  then obtain v r where "r \<in> set df_base \<union> set df_opt" "snd q = tag v r" by auto
  then show ?thesis by (auto simp: tag_def)
qed

lemma groupby_empty:
  assumes "\<forall>q \<in> set df. pattern_name (snd q) = None"
  shows "groupby df = []"
proof -
  from assms have "fst ` set (groupby df) = {}"
    unfolding groupby_keys by fastforce
  then show ?thesis by simp
qed

lemma hist_vals_known:
  "hist_vals (filter (\<lambda>r. pattern r \<in> {0..5}) df) n p = hist_vals df n p"
proof -
  have "filter (\<lambda>r. N r = n \<and> map_of pattern_names (pattern r) = Some p)
          (filter (\<lambda>r. pattern r \<in> {0..5}) df) =
        filter (\<lambda>r. N r = n \<and> map_of pattern_names (pattern r) = Some p) df"
    unfolding filter_filter
    by (rule filter_cong) (auto dest: pattern_names_Some)
  then show ?thesis by (simp add: hist_vals_def)
qed

section \<open>Pattern codes outside the table\<close>

text \<open>
  Claim C9, as the code has it.  A record whose numeric pattern code is not one of the
  six codes 0 to 5 of \<^verbatim>\<open>pattern_names\<close> is mapped to a missing name.  No group of the
  \<^verbatim>\<open>groupby\<close> contains it, every entry of the best-times summary is read from a row with
  a code of the table, and the histogram script gives the same output with and
  without such records.  Neither the mapping nor the grouping raises an error for it;
  but when every record has such a code no group is left, the list \<^verbatim>\<open>rows\<close> is empty and
  \<^verbatim>\<open>pd.DataFrame(rows).sort_values(["N", "best_time_sec"])\<close> ends the script with
  \<^verbatim>\<open>KeyError\<close>.
\<close>

theorem unknown_pattern_codes_dropped:
  "(c \<notin> {0..5} \<longrightarrow> map_of pattern_names c = None) \<and>
   (\<forall>kg \<in> set (groupby (combined df_base df_opt)). \<forall>q \<in> set (snd kg).
      pattern (snd q) \<in> {0..5}) \<and>
   (plot_best_time df_base df_opt = Inr es \<longrightarrow>
      (\<forall>e \<in> set es. \<exists>q \<in> set (combined df_base df_opt).
         pattern (snd q) \<in> {0..5} \<and>
         map_of pattern_names (pattern (snd q)) = Some (entry_pattern_name e) \<and>
         N (snd q) = entry_N e \<and>
         best_time_sec e = sec (snd q) \<and> best_version e = version (snd q))) \<and>
   hist_vals df n p = hist_vals (filter (\<lambda>r. pattern r \<in> {0..5}) df) n p \<and>
   plot_histograms df_base df_opt =
     plot_histograms (filter (\<lambda>r. pattern r \<in> {0..5}) df_base)
                     (filter (\<lambda>r. pattern r \<in> {0..5}) df_opt) \<and>
   ((\<forall>r \<in> set df_base \<union> set df_opt. pattern r \<notin> {0..5}) \<longrightarrow>
      plot_best_time df_base df_opt = Inl KeyError)"
proof -
  let ?df = "combined df_base df_opt"
  have 1: "c \<notin> {0..5} \<longrightarrow> map_of pattern_names c = None"
    by (rule impI) (rule pattern_names_None)
  have 2: "\<forall>kg \<in> set (groupby ?df). \<forall>q \<in> set (snd kg). pattern (snd q) \<in> {0..5}"
  proof (intro ballI)
    fix kg q assume kg: "kg \<in> set (groupby ?df)" and q: "q \<in> set (snd kg)"
    obtain k g where e: "kg = (k, g)" by (cases kg)
    from kg e have "(k, g) \<in> set (groupby ?df)" by simp
    from groupby_key [OF this] q e have m: "q \<in> set ?df"
      and nm: "pattern_name (snd q) = Some (snd k)" by (auto simp: case_prod_beta)
    from combined_row [OF m] nm have "map_of pattern_names (pattern (snd q)) = Some (snd k)"
      by simp
    then show "pattern (snd q) \<in> {0..5}" by (rule pattern_names_Some)
  qed
  have 3: "\<forall>e \<in> set es. \<exists>q \<in> set ?df.
         pattern (snd q) \<in> {0..5} \<and>
         map_of pattern_names (pattern (snd q)) = Some (entry_pattern_name e) \<and>
         N (snd q) = entry_N e \<and>
         best_time_sec e = sec (snd q) \<and> best_version e = version (snd q)"
    if p: "plot_best_time df_base df_opt = Inr es"
  proof
    fix e assume e: "e \<in> set es"
    let ?K = "\<lambda>(i, r). N r = entry_N e \<and> pattern_name r = Some (entry_pattern_name e)"
    from plot_best_time_entry [OF p e] obtain pre i r post where
      s: "filter ?K ?df = pre @ (i, r) # post"
      and v: "best_time_sec e = sec r" "best_version e = version r" by blast
    have "(i, r) \<in> set (filter ?K ?df)" unfolding s by simp
    then have m: "(i, r) \<in> set ?df" and k: "N r = entry_N e"
      "pattern_name r = Some (entry_pattern_name e)" by auto
    from combined_row [OF m] k have nm:
      "map_of pattern_names (pattern r) = Some (entry_pattern_name e)" by simp
    from pattern_names_Some [OF nm] have "pattern r \<in> {0..5}" .
    with m k v nm show "\<exists>q \<in> set ?df.
         pattern (snd q) \<in> {0..5} \<and>
         map_of pattern_names (pattern (snd q)) = Some (entry_pattern_name e) \<and>
         N (snd q) = entry_N e \<and>
         best_time_sec e = sec (snd q) \<and> best_version e = version (snd q)"
      by (intro bexI [of _ "(i, r)"]) simp_all
  qed
  have 4: "hist_vals df n p = hist_vals (filter (\<lambda>r. pattern r \<in> {0..5}) df) n p"
    by (simp only: hist_vals_known)
  have 5: "plot_histograms df_base df_opt =
     plot_histograms (filter (\<lambda>r. pattern r \<in> {0..5}) df_base)
                     (filter (\<lambda>r. pattern r \<in> {0..5}) df_opt)"
    by (simp only: plot_histograms_def hist_vals_known)
  have 6: "plot_best_time df_base df_opt = Inl KeyError"
    if u: "\<forall>r \<in> set df_base \<union> set df_opt. pattern r \<notin> {0..5}"
  proof -
    have "\<forall>q \<in> set ?df. pattern_name (snd q) = None"
    proof
      fix q assume "q \<in> set ?df"
      from combined_row [OF this] u show "pattern_name (snd q) = None"
        by (auto simp: pattern_names_None)
    qed
    then have "groupby ?df = []" by (rule groupby_empty)
    then show ?thesis by (simp add: plot_best_time_def)
  qed
  show ?thesis
    by (rule conjI [OF 1 conjI [OF 2 conjI [OF impI [OF 3] conjI [OF 4 conjI [OF 5 impI [OF 6]]]]]])
qed

theorem unknown_pattern_codes_dropped_witness:
  "(7 :: int) \<notin> {0..5} \<and> map_of pattern_names 7 = None \<and>
   plot_best_time sample_base sample_opt = Inr sample_best \<and>
   entry_pattern_name \<lparr>entry_N = 256, entry_pattern_name = ''col_major'',
                        best_time_sec = Fin (1 / 2), best_version = ''unoptimized''\<rparr>
     \<in> snd ` set pattern_names \<and>
   plot_best_time [\<lparr>N = 256, threads = 1, pattern = 7, sec = Fin (1 / 8)\<rparr>] [] = Inl KeyError"
proof -
  let ?u = "[\<lparr>N = 256, threads = 1, pattern = 7, sec = Fin (1 / 8)\<rparr>] :: int row list"
  let ?e = "\<lparr>entry_N = 256, entry_pattern_name = ''col_major'',
             best_time_sec = Fin (1 / 2), best_version = ''unoptimized''\<rparr>"
  have h: "(7 :: int) \<notin> {0..5}" by simp
  note t = unknown_pattern_codes_dropped [of 7 ?u "[]" "[]" "[]" 256 "''col_major''"]
  note a = t [THEN conjunct1, THEN mp, OF h]
  have u: "\<forall>r \<in> set ?u \<union> set []. pattern r \<notin> {0..5}" by simp
  note b = t [THEN conjunct2, THEN conjunct2, THEN conjunct2, THEN conjunct2, THEN conjunct2,
              THEN mp, OF u]
  have e: "?e \<in> set sample_best" by (simp add: sample_best_def)
  note unknown_pattern_codes_dropped
    [of 7 sample_base sample_opt sample_best "[]" 256 "''col_major''",
     THEN conjunct2, THEN conjunct2, THEN conjunct1, THEN mp, OF sample_best_eval,
     THEN bspec, OF e]
  then obtain q where
    "q \<in> set (combined sample_base sample_opt)" and
    c: "pattern (snd q) \<in> {0..5} \<and>
        map_of pattern_names (pattern (snd q)) = Some (entry_pattern_name ?e) \<and>
        N (snd q) = entry_N ?e \<and>
        best_time_sec ?e = sec (snd q) \<and> best_version ?e = version (snd q)" ..
  from map_of_SomeD [OF c [THEN conjunct2, THEN conjunct1]]
  have k: "entry_pattern_name ?e \<in> snd ` set pattern_names"
    by (rule rev_image_eqI) (simp only: snd_conv)
  show ?thesis
    by (intro conjI) (rule h a sample_best_eval k b)+
qed

text \<open>
  The claim as stated, that no error is raised for unknown pattern codes, fails on a
  result file whose only record has a code outside the table: the same record with
  code 1 gives a summary, with code 7 the script ends with \<^verbatim>\<open>KeyError\<close>.
\<close>

theorem unknown_pattern_code_error_counterexample:
  "plot_best_time [\<lparr>N = 256, threads = 1, pattern = 7, sec = Fin (1 / 8)\<rparr>] [] = Inl KeyError \<and>
   plot_best_time [\<lparr>N = 256, threads = 1, pattern = 1, sec = Fin (1 / 8)\<rparr>] [] =
     Inr [\<lparr>entry_N = 256, entry_pattern_name = ''col_major'',
           best_time_sec = Fin (1 / 8), best_version = ''unoptimized''\<rparr>]"
  by (simp add: plot_best_time_eval)









lemma series_max_Some: "series_max xs = Some m \<Longrightarrow> xs \<noteq> [] \<and> m = Max (set xs)"
  by (cases xs) (simp_all only: series_max.simps foldl_max_Max, simp_all)






section \<open>A method without a baseline record\<close>




lemma mset_concat_update:
  "mset (concat (map f (AList.update k v al))) +
     (case map_of al k of None \<Rightarrow> {#} | Some w \<Rightarrow> mset (f (k, w))) =
   mset (concat (map f al)) + mset (f (k, v))"
proof (induction al)
  case Nil
  show ?case by simp
next
  case (Cons a al)
  obtain k' w' where a: "a = (k', w')" by (cases a)
  show ?case
  proof (cases "k' = k")
    case True
    with a show ?thesis by (simp add: ac_simps)
  next
    case False
    with a Cons.IH show ?thesis by (simp add: ac_simps)
  qed
qed

lemma mset_inner_add:
  fixes inner :: "('p, ('n \<times> 's) list) dict" and t :: 't
  defines "G \<equiv> \<lambda>inner. concat (map (\<lambda>(p, pts). map (\<lambda>(n, s). (t, p, n, s)) pts) inner)"
  shows "mset (G (AList.update p (get_or_empty inner p @ [(n, s)]) inner)) =
         mset (G inner) + {#(t, p, n, s)#}"
proof -
  let ?f = "\<lambda>(p, pts). map (\<lambda>(n, s). (t, p, n, s)) pts"
  note u = mset_concat_update [of ?f p "get_or_empty inner p @ [(n, s)]" inner]
  show ?thesis
  proof (cases "map_of inner p")
    case None
    with u show ?thesis by (simp add: G_def get_or_empty_def)
  next
    case (Some w)
    with u have "mset (G (AList.update p (w @ [(n, s)]) inner)) + mset (?f (p, w)) =
        mset (G inner) + (mset (?f (p, w)) + {#(t, p, n, s)#})"
      by (simp add: G_def get_or_empty_def)
    then have "mset (G (AList.update p (w @ [(n, s)]) inner)) =
        mset (G inner) + {#(t, p, n, s)#}"
      by (simp add: ac_simps)
    with Some show ?thesis by (simp add: get_or_empty_def)
  qed
qed

lemma mset_flatten_step:
  "mset (flatten_groups (data_by_thread_step d r)) =
     mset (flatten_groups d) + {#(threads r, pattern r, N r, sec r)#}"
proof -
  let ?t = "threads r"
  let ?G = "\<lambda>t inner. concat (map (\<lambda>(p, pts). map (\<lambda>(n, s). (t, p, n, s)) pts) inner)"
  let ?f = "\<lambda>(t, inner). ?G t inner"
  let ?inner = "get_or_empty d ?t"
  let ?v = "AList.update (pattern r) (get_or_empty ?inner (pattern r) @ [(N r, sec r)]) ?inner"
  have fl: "\<And>d. flatten_groups d = concat (map ?f d)"
    by (simp add: flatten_groups_def)
  have st: "data_by_thread_step d r = AList.update ?t ?v d"
    by (simp add: data_by_thread_step_def Let_def)
  have v: "mset (?G ?t ?v) = mset (?G ?t ?inner) + {#(?t, pattern r, N r, sec r)#}"
    by (rule mset_inner_add)
  note u = mset_concat_update [of ?f ?t ?v d]
  show ?thesis
  proof (cases "map_of d ?t")
    case None
    then have "?inner = []" by (simp add: get_or_empty_def)
    with u v None show ?thesis unfolding fl st by simp
  next
    case (Some w)
    then have i: "?inner = w" by (simp add: get_or_empty_def)
    from u Some have "mset (concat (map ?f (AList.update ?t ?v d))) + mset (?G ?t w) =
        mset (concat (map ?f d)) + mset (?G ?t ?v)" by simp
    with v i have "mset (concat (map ?f (AList.update ?t ?v d))) + mset (?G ?t w) =
        mset (concat (map ?f d)) + (mset (?G ?t w) + {#(?t, pattern r, N r, sec r)#})"
      by simp
    then have "mset (concat (map ?f (AList.update ?t ?v d))) =
        mset (concat (map ?f d)) + {#(?t, pattern r, N r, sec r)#}"
      by (simp add: ac_simps)
    then show ?thesis unfolding fl st .
  qed
qed

lemma mset_flatten_data_by_thread:
  "mset (flatten_groups (data_by_thread rs)) =
     mset (map (\<lambda>r. (threads r, pattern r, N r, sec r)) rs)"
proof (induction rs rule: rev_induct)
  case Nil
  show ?case by (simp add: data_by_thread_def flatten_groups_def)
next
  case (snoc r rs)
  have "data_by_thread (rs @ [r]) = data_by_thread_step (data_by_thread rs) r"
    by (simp add: data_by_thread_def)
  then show ?case using snoc.IH by (simp add: mset_flatten_step)
qed

lemma group_data_by_thread_step:
  "get_or_empty (get_or_empty (data_by_thread_step d r) t) p =
     (if threads r = t \<and> pattern r = p
      then get_or_empty (get_or_empty d t) p @ [(N r, sec r)]
      else get_or_empty (get_or_empty d t) p)"
  by (simp add: data_by_thread_step_def Let_def get_or_empty_def update_conv')

lemma group_data_by_thread:
  "get_or_empty (get_or_empty (data_by_thread rs) t) p =
     map (\<lambda>r. (N r, sec r)) (filter (\<lambda>r. threads r = t \<and> pattern r = p) rs)"
proof (induction rs rule: rev_induct)
  case Nil
  show ?case by (simp add: data_by_thread_def get_or_empty_def)
next
  case (snoc r rs)
  have "data_by_thread (rs @ [r]) = data_by_thread_step (data_by_thread rs) r"
    by (simp add: data_by_thread_def)
  then show ?case using snoc.IH by (simp add: group_data_by_thread_step)
qed

end
